theory Spec2Isabelle
  imports Main
begin

section \<open>Tokens, errors and the type tree\<close>

text \<open>
  The token kinds the parser of \<^verbatim>\<open>src/getdocs/parser.ts\<close> dispatches on
  (\<^verbatim>\<open>SyntaxKind\<close>), together with the end token the scanner returns at the end of
  the input.
\<close>

datatype SyntaxKind =
    EndOfFileToken
  | Identifier
  | StringLiteral
  | NumberLiteral
  | QuestionToken
  | DotToken
  | CommaToken
  | ColonToken
  | OpenParenToken
  | CloseParenToken
  | OpenBracketToken
  | CloseBracketToken
  | OpenBraceToken
  | CloseBraceToken
  | LessThanToken
  | GreaterThanToken
  | DotDotDotToken
  | RightArrowToken
  | AsteriskToken
  | AnyKeyword
  | UnionKeyword

text \<open>
  Every \<^verbatim>\<open>throw\<close> of the parser is a value:
  \<^item> \<open>UnableToParse token\<close> is \<^verbatim>\<open>Unable to parse token ${token}\<close> (the default branch of
    \<^verbatim>\<open>parseType\<close>);
  \<^item> \<open>ExpectedButFound kind token\<close> is \<^verbatim>\<open>Expected to parse ${kind} but found ${token}\<close>
    (\<^verbatim>\<open>skipExpected\<close>);
  \<^item> \<open>InvariantViolation\<close> is a failed \<^verbatim>\<open>invariant(...)\<close>;
  \<^item> \<open>UnrecognizedCharacter c\<close> and \<open>UnterminatedString\<close> are the scanner's lexical errors.
\<close>

datatype error =
    UnableToParse SyntaxKind
  | ExpectedButFound SyntaxKind SyntaxKind
  | InvariantViolation
  | UnrecognizedCharacter char
  | UnterminatedString

text \<open>
  The nodes of the type tree (the interfaces at the end of \<^verbatim>\<open>parser.ts\<close>). An optional
  field (\<^verbatim>\<open>returnType?\<close>, \<^verbatim>\<open>name?\<close>, \<^verbatim>\<open>rest?\<close>) is an \<open>option\<close>: \<open>None\<close> is the
  field that was never assigned, so the object has no such key.
\<close>

datatype TypeNode =
    AnyTypeNode
  | EntityTypeNode (entityName: string)
  | NullableTypeNode TypeNode
  | UnionTypeNode "TypeNode list"
  | FunctionTypeNode (parameters: "FunctionParameterTypeNode list") (returnType: "TypeNode option")
  | ArrayTypeNode TypeNode
  | ObjectTypeNode "ObjectMemberTypeNode list"
  | StringLiteralTypeNode string
  | NumberLiteralTypeNode string
and FunctionParameterTypeNode =
    FunctionParameterTypeNode (paramType: TypeNode) (paramName: "string option") (paramRest: "bool option")
and ObjectMemberTypeNode =
    ObjectMemberTypeNode (memberName: string) (memberType: TypeNode)

datatype ParsingContext = Parameters | TypeParameters | LiteralTypeMembers

section \<open>The scanner\<close>

text \<open>
  \<^verbatim>\<open>src/getdocs/scanner.ts\<close> is imported by the parser but is not among the sources, so
  this section is written from section 4.1 of the specification. The annotation text is
  a \<open>string\<close> holding its UTF-8 bytes; the return-type arrow (U+2192) is the three bytes
  \<open>0xE2 0x86 0x92\<close>. The scanner state is the text that is still unread and the value of
  the token scanned last.
\<close>

record Scanner =
  remaining :: string
  tokenValue :: string

definition createScanner :: "string \<Rightarrow> Scanner" where
  \<comment> \<open>Modelled from the spec: \<^verbatim>\<open>createScanner\<close> of the absent scanner.ts; the scanner is
      initialised once, on the whole annotation string.\<close>
  "createScanner txt = \<lparr>remaining = txt, tokenValue = []\<rparr>"

definition isWhiteSpace :: "char \<Rightarrow> bool" where
  \<comment> \<open>Modelled from the spec: the whitespace \<^verbatim>\<open>scan()\<close> advances past (space, tab, line feed,
      carriage return).\<close>
  "isWhiteSpace c = (c \<in> set [CHR 0x20, CHR 0x09, CHR 0x0A, CHR 0x0D])"

definition isDigit :: "char \<Rightarrow> bool" where
  \<comment> \<open>Modelled from the spec: the characters of a number literal.\<close>
  "isDigit c = (c \<in> set ''0123456789'')"

definition isIdentifierStart :: "char \<Rightarrow> bool" where
  \<comment> \<open>Modelled from the spec: the characters an identifier may begin with.\<close>
  "isIdentifierStart c =
     (c \<in> set ''abcdefghijklmnopqrstuvwxyzABCDEFGHIJKLMNOPQRSTUVWXYZ_$'')"

definition isIdentifierPart :: "char \<Rightarrow> bool" where
  \<comment> \<open>Modelled from the spec: the characters an identifier may continue with.\<close>
  "isIdentifierPart c = (isIdentifierStart c \<or> isDigit c)"

definition rightArrow :: string where
  \<comment> \<open>Modelled from the spec: the return-type arrow (U+2192), as its UTF-8 bytes.\<close>
  "rightArrow = [CHR 0xE2, CHR 0x86, CHR 0x92]"

fun scanString :: "string \<Rightarrow> (string \<times> string) option" where
  \<comment> \<open>Modelled from the spec: the body of a string literal after its opening quote, up to
      the closing quote; a backslash keeps the character after it (so the literal's own
      quote is unescaped). The result is the decoded value and the text after the literal;
      \<open>None\<close> when the closing quote is missing.\<close>
  "scanString [] = None"
| "scanString (c # cs) =
     (if c = CHR 0x22 then Some ([], cs)
      else if c = CHR 0x5C then
        (case cs of
           [] \<Rightarrow> None
         | d # ds \<Rightarrow> (case scanString ds of None \<Rightarrow> None | Some (v, r) \<Rightarrow> Some (d # v, r)))
      else (case scanString cs of None \<Rightarrow> None | Some (v, r) \<Rightarrow> Some (c # v, r)))"

definition punctuation :: "SyntaxKind \<Rightarrow> string \<Rightarrow> error + SyntaxKind \<times> Scanner" where
  \<comment> \<open>Modelled from the spec: a fixed punctuation token; it has no literal value.\<close>
  "punctuation kind cs = Inr (kind, \<lparr>remaining = cs, tokenValue = []\<rparr>)"

definition scanWord :: "string \<Rightarrow> error + SyntaxKind \<times> Scanner" where
  \<comment> \<open>Modelled from the spec: an identifier, or one of the keywords \<^verbatim>\<open>any\<close> and \<^verbatim>\<open>union\<close>.\<close>
  "scanWord cs =
     (let word = takeWhile isIdentifierPart cs;
          sc = \<lparr>remaining = dropWhile isIdentifierPart cs, tokenValue = word\<rparr>
      in if word = ''any'' then Inr (AnyKeyword, sc)
         else if word = ''union'' then Inr (UnionKeyword, sc)
         else Inr (Identifier, sc))"

definition scan :: "Scanner \<Rightarrow> error + SyntaxKind \<times> Scanner" where
  \<comment> \<open>Modelled from the spec: \<^verbatim>\<open>scan()\<close> of the absent scanner.ts. It advances past
      whitespace, classifies the next lexeme and returns its kind with the scanner after
      it; at the end of the input it returns the end token; an unrecognized character is
      a lexical error.\<close>
  "scan sc =
     (case dropWhile isWhiteSpace (remaining sc) of
        [] \<Rightarrow> Inr (EndOfFileToken, \<lparr>remaining = [], tokenValue = []\<rparr>)
      | c # cs \<Rightarrow>
          if c = CHR ''?'' then punctuation QuestionToken cs
          else if c = CHR ''.'' then
            (if take 2 cs = ''..'' then punctuation DotDotDotToken (drop 2 cs)
             else punctuation DotToken cs)
          else if c = CHR '','' then punctuation CommaToken cs
          else if c = CHR '':'' then punctuation ColonToken cs
          else if c = CHR ''('' then punctuation OpenParenToken cs
          else if c = CHR '')'' then punctuation CloseParenToken cs
          else if c = CHR ''['' then punctuation OpenBracketToken cs
          else if c = CHR '']'' then punctuation CloseBracketToken cs
          else if c = CHR ''{'' then punctuation OpenBraceToken cs
          else if c = CHR ''}'' then punctuation CloseBraceToken cs
          else if c = CHR ''<'' then punctuation LessThanToken cs
          else if c = CHR ''>'' then punctuation GreaterThanToken cs
          else if c = CHR ''*'' then punctuation AsteriskToken cs
          else if c # take 2 cs = rightArrow then punctuation RightArrowToken (drop 2 cs)
          else if c = CHR 0x22 then
            (case scanString cs of
               None \<Rightarrow> Inl UnterminatedString
             | Some (v, r) \<Rightarrow> Inr (StringLiteral, \<lparr>remaining = r, tokenValue = v\<rparr>))
          else if isDigit c then
            Inr (NumberLiteral,
                 \<lparr>remaining = dropWhile isDigit (c # cs), tokenValue = takeWhile isDigit (c # cs)\<rparr>)
          else if isIdentifierStart c then scanWord (c # cs)
          else Inl (UnrecognizedCharacter c))"

definition getTokenValue :: "Scanner \<Rightarrow> string" where
  \<comment> \<open>Modelled from the spec: \<^verbatim>\<open>getTokenValue()\<close> of the absent scanner.ts, the decoded text
      of the identifier, string or number scanned last.\<close>
  "getTokenValue sc = tokenValue sc"

definition lookAhead :: "(Scanner \<Rightarrow> error + 'a \<times> Scanner) \<Rightarrow> Scanner \<Rightarrow> error + 'a \<times> Scanner" where
  \<comment> \<open>Modelled from the spec: \<^verbatim>\<open>lookAhead(predicate)\<close> of the absent scanner.ts. It runs the
      predicate, which may scan ahead, then restores the scanner to what it was before
      the call, whatever the predicate returned, and returns the predicate's result.\<close>
  "lookAhead callback sc =
     (case callback sc of Inl e \<Rightarrow> Inl e | Inr (result, sc') \<Rightarrow> Inr (result, sc))"

definition invariant :: "bool \<Rightarrow> error + unit" where
  \<comment> \<open>Modelled from the spec: \<^verbatim>\<open>invariant\<close> of the absent src/invariant; a required token
      that is missing raises.\<close>
  "invariant cond = (if cond then Inr () else Inl InvariantViolation)"

section \<open>The parser\<close>

text \<open>
  The closure of \<^verbatim>\<open>parse\<close> holds the current token and the scanner; every function of
  the closure takes this state and returns it updated.
\<close>

record ParserState =
  token :: SyntaxKind
  scanner :: Scanner

text \<open>
  A function of the parser returns \<open>Some (Inr (value, state))\<close>, raises \<open>Some (Inl error)\<close>,
  or is cut short by the bound on the nesting depth: \<open>None\<close>.
\<close>

type_synonym 'a outcome = "(error + 'a \<times> ParserState) option"

definition ok :: "'a \<Rightarrow> ParserState \<Rightarrow> 'a outcome" where
  \<comment> \<open>\<^verbatim>\<open>return x\<close>, in the state \<open>st\<close>.\<close>
  "ok x st = Some (Inr (x, st))"

definition raise :: "error \<Rightarrow> 'a outcome" where
  \<comment> \<open>\<^verbatim>\<open>throw\<close>.\<close>
  "raise e = Some (Inl e)"

definition andThen :: "'a outcome \<Rightarrow> ('a \<Rightarrow> ParserState \<Rightarrow> 'b outcome) \<Rightarrow> 'b outcome" where
  \<comment> \<open>Sequencing: the second step runs on what the first returned; a raise, or the bound
      being hit, ends the sequence.\<close>
  "andThen m f =
     (case m of
        None \<Rightarrow> None
      | Some (Inl e) \<Rightarrow> Some (Inl e)
      | Some (Inr (x, st)) \<Rightarrow> f x st)"

definition nextToken :: "ParserState \<Rightarrow> unit outcome" where
  \<comment> \<open>parser.ts, lines 8-10: \<^verbatim>\<open>token = scanner.scan()\<close>.\<close>
  "nextToken st =
     (case scan (scanner st) of
        Inl e \<Rightarrow> raise e
      | Inr (kind, sc) \<Rightarrow> ok () \<lparr>token = kind, scanner = sc\<rparr>)"

definition skipExpected :: "SyntaxKind \<Rightarrow> ParserState \<Rightarrow> unit outcome" where
  \<comment> \<open>parser.ts, lines 187-192.\<close>
  "skipExpected kind st =
     (if token st \<noteq> kind then raise (ExpectedButFound kind (token st))
      else nextToken st)"

definition skipOptional :: "SyntaxKind \<Rightarrow> ParserState \<Rightarrow> bool outcome" where
  \<comment> \<open>parser.ts, lines 194-200.\<close>
  "skipOptional kind st =
     (if token st = kind then andThen (nextToken st) (\<lambda>_. ok True)
      else ok False st)"

definition isListTerminator :: "ParsingContext \<Rightarrow> ParserState \<Rightarrow> bool" where
  \<comment> \<open>parser.ts, lines 202-212; the final \<^verbatim>\<open>return false\<close> is reached for no context.\<close>
  "isListTerminator context st =
     (case context of
        TypeParameters \<Rightarrow> token st = GreaterThanToken
      | Parameters \<Rightarrow> token st = CloseParenToken
      | LiteralTypeMembers \<Rightarrow> token st = CloseBraceToken)"

definition isNamedFunctionParameterStart :: "SyntaxKind \<Rightarrow> Scanner \<Rightarrow> error + bool \<times> Scanner" where
  \<comment> \<open>parser.ts, lines 214-217, the callback of the look ahead. It reads the closure's
      \<^verbatim>\<open>token\<close>, passed here as \<open>tok\<close>, and calls \<^verbatim>\<open>scanner.scan()\<close> only when that is an
      identifier; the closure's \<^verbatim>\<open>token\<close> is not assigned.\<close>
  "isNamedFunctionParameterStart tok sc =
     (if tok = Identifier then
        (case scan sc of Inl e \<Rightarrow> Inl e | Inr (kind, sc') \<Rightarrow> Inr (kind = ColonToken, sc'))
      else Inr (False, sc))"

definition parseAny :: "ParserState \<Rightarrow> TypeNode outcome" where
  \<comment> \<open>parser.ts, lines 40-45.\<close>
  "parseAny st = andThen (nextToken st) (\<lambda>_. ok AnyTypeNode)"

definition parseNumberLiteral :: "ParserState \<Rightarrow> TypeNode outcome" where
  \<comment> \<open>parser.ts, lines 47-54.\<close>
  "parseNumberLiteral st =
     (let v = getTokenValue (scanner st)
      in andThen (nextToken st) (\<lambda>_. ok (NumberLiteralTypeNode v)))"

definition parseStringLiteral :: "ParserState \<Rightarrow> TypeNode outcome" where
  \<comment> \<open>parser.ts, lines 56-63.\<close>
  "parseStringLiteral st =
     (let v = getTokenValue (scanner st)
      in andThen (nextToken st) (\<lambda>_. ok (StringLiteralTypeNode v)))"

definition parseIdentifier :: "ParserState \<Rightarrow> string outcome" where
  \<comment> \<open>parser.ts, lines 102-107.\<close>
  "parseIdentifier st =
     (case invariant (token st = Identifier) of
        Inl e \<Rightarrow> raise e
      | Inr _ \<Rightarrow>
          (let identifier = getTokenValue (scanner st)
           in andThen (nextToken st) (\<lambda>_. ok identifier)))"

text \<open>
  The loop of \<^verbatim>\<open>parseEntity\<close> ends: each iteration skips a dot and an identifier, so less
  of the text remains unread.
\<close>

lemma andThen_cong [fundef_cong]:
  assumes "m = m'"
    and "\<And>x st. m' = Some (Inr (x, st)) \<Longrightarrow> f x st = f' x st"
  shows "andThen m f = andThen m' f'"
  using assms by (auto simp: andThen_def split: option.splits sum.splits)

lemma scanString_length: "scanString cs = Some (v, r) \<Longrightarrow> length r < length cs"
proof (induction cs arbitrary: v r rule: scanString.induct)
  case 1
  then show ?case by simp
next
  case (2 c cs)
  then show ?case
    by (fastforce split: if_splits list.splits option.splits)
qed

lemma scan_length:
  assumes "scan sc = Inr (kind, sc')"
  shows "length (remaining sc') \<le> length (remaining sc)"
    and "kind \<noteq> EndOfFileToken \<Longrightarrow> length (remaining sc') < length (remaining sc)"
proof -
  let ?r = "dropWhile isWhiteSpace (remaining sc)"
  have le: "length ?r \<le> length (remaining sc)" by (rule length_dropWhile_le)
  have "length (remaining sc') \<le> length ?r
      \<and> (kind \<noteq> EndOfFileToken \<longrightarrow> length (remaining sc') < length ?r)"
  proof (cases ?r)
    case Nil
    with assms show ?thesis by (auto simp: scan_def)
  next
    case (Cons c cs)
    have w: "length (dropWhile isIdentifierPart (c # cs)) < Suc (length cs)" if "isIdentifierStart c"
      using that length_dropWhile_le [of isIdentifierPart cs] by (simp add: isIdentifierPart_def)
    have d: "length (dropWhile isDigit (c # cs)) < Suc (length cs)" if "isDigit c"
      using that length_dropWhile_le [of isDigit cs] by simp
    from assms Cons show ?thesis
      using w d
      by (auto simp: scan_def punctuation_def scanWord_def Let_def
          split: if_splits option.splits dest!: scanString_length)
  qed
  with le show "length (remaining sc') \<le> length (remaining sc)"
    and "kind \<noteq> EndOfFileToken \<Longrightarrow> length (remaining sc') < length (remaining sc)"
    by auto
qed

lemma nextToken_Inr:
  "nextToken st = Some (Inr (u, st')) \<longleftrightarrow> scan (scanner st) = Inr (token st', scanner st')"
  by (cases st') (auto simp: nextToken_def ok_def raise_def split: sum.splits)

lemma entity_step_length:
  assumes "skipOptional DotToken st = Some (Inr (True, st1))"
    and "parseIdentifier st1 = Some (Inr (identifier, st2))"
  shows "length (remaining (scanner st2)) < length (remaining (scanner st))"
proof -
  from assms(1) have s1: "scan (scanner st) = Inr (token st1, scanner st1)"
    by (auto simp: skipOptional_def andThen_def ok_def nextToken_Inr
        split: if_splits option.splits sum.splits)
  from assms(2) have t1: "token st1 = Identifier"
    and s2: "scan (scanner st1) = Inr (token st2, scanner st2)"
    by (auto simp: parseIdentifier_def invariant_def andThen_def ok_def raise_def Let_def
        nextToken_Inr split: if_splits option.splits sum.splits)
  from scan_length(2) [OF s1] t1 scan_length(1) [OF s2] show ?thesis by simp
qed

function parseEntityNames :: "string \<Rightarrow> ParserState \<Rightarrow> string outcome" where
  \<comment> \<open>The \<^verbatim>\<open>while (skipOptional(SyntaxKind.DotToken))\<close> loop of \<^verbatim>\<open>parseEntity\<close>, on the
      name collected so far.\<close>
  "parseEntityNames name st =
     andThen (skipOptional DotToken st) (\<lambda>found st1.
       if found then
         andThen (parseIdentifier st1) (\<lambda>identifier st2.
           parseEntityNames (name @ ''.'' @ identifier) st2)
       else ok name st1)"
  by pat_completeness auto
termination
  by (relation "measure (\<lambda>(name, st). length (remaining (scanner st)))")
     (auto dest: entity_step_length)

declare parseEntityNames.simps [simp del]

definition parseEntity :: "ParserState \<Rightarrow> TypeNode outcome" where
  \<comment> \<open>parser.ts, lines 109-118.\<close>
  "parseEntity st =
     andThen (parseIdentifier st) (\<lambda>name st1.
       andThen (parseEntityNames name st1) (\<lambda>name' st2. ok (EntityTypeNode name') st2))"

fun parseDelimitedListFrom ::
  "nat \<Rightarrow> ParsingContext \<Rightarrow> (ParserState \<Rightarrow> 'a outcome) \<Rightarrow> 'a list \<Rightarrow> ParserState \<Rightarrow> 'a list outcome" where
  \<comment> \<open>The \<^verbatim>\<open>while (true)\<close> loop of \<^verbatim>\<open>parseDelimitedList\<close>, on the \<^verbatim>\<open>result\<close> array so far;
      the first argument bounds the number of iterations.\<close>
  "parseDelimitedListFrom 0 context parseElement result st = None"
| "parseDelimitedListFrom (Suc k) context parseElement result st =
     (if isListTerminator context st then ok result st
      else
        andThen (parseElement st) (\<lambda>element st1.
          andThen (skipOptional CommaToken st1) (\<lambda>_ st2.
            parseDelimitedListFrom k context parseElement (result @ [element]) st2)))"

definition parseDelimitedList ::
  "nat \<Rightarrow> ParsingContext \<Rightarrow> (ParserState \<Rightarrow> 'a outcome) \<Rightarrow> ParserState \<Rightarrow> 'a list outcome" where
  \<comment> \<open>parser.ts, lines 175-185.\<close>
  "parseDelimitedList k context parseElement st =
     parseDelimitedListFrom k context parseElement [] st"

definition parseBracketedList ::
  "nat \<Rightarrow> ParsingContext \<Rightarrow> (ParserState \<Rightarrow> 'a outcome) \<Rightarrow> SyntaxKind \<Rightarrow> SyntaxKind
     \<Rightarrow> ParserState \<Rightarrow> 'a list outcome" where
  \<comment> \<open>parser.ts, lines 168-173.\<close>
  "parseBracketedList k context parseElement open close st =
     andThen (skipExpected open st) (\<lambda>_ st1.
       andThen (parseDelimitedList k context parseElement st1) (\<lambda>result st2.
         andThen (skipExpected close st2) (\<lambda>_ st3. ok result st3)))"

definition truthy :: "string option \<Rightarrow> bool" where
  \<comment> \<open>\<^verbatim>\<open>if (name)\<close>: neither \<^verbatim>\<open>undefined\<close> nor the empty string.\<close>
  "truthy name = (case name of None \<Rightarrow> False | Some s \<Rightarrow> s \<noteq> [])"

definition parseFunctionParameterName ::
  "ParserState \<Rightarrow> (string option \<times> bool option) outcome" where
  \<comment> \<open>The first statement of \<^verbatim>\<open>parseFunctionParameter\<close>: the \<^verbatim>\<open>if\<close> that sets the
      variables \<^verbatim>\<open>name\<close> and \<^verbatim>\<open>rest\<close> (\<open>None\<close> is \<^verbatim>\<open>undefined\<close>).\<close>
  "parseFunctionParameterName st =
     (if token st = DotDotDotToken then
        andThen (nextToken st) (\<lambda>_ st1.
          andThen (parseIdentifier st1) (\<lambda>name st2.
            andThen (skipExpected ColonToken st2) (\<lambda>_ st3. ok (Some name, Some True) st3)))
      else
        (case lookAhead (isNamedFunctionParameterStart (token st)) (scanner st) of
           Inl e \<Rightarrow> raise e
         | Inr (named, sc) \<Rightarrow>
             if named then
               andThen (parseIdentifier (st\<lparr>scanner := sc\<rparr>)) (\<lambda>name st1.
                 andThen (skipExpected ColonToken st1) (\<lambda>_ st2. ok (Some name, None) st2))
             else ok (None, None) (st\<lparr>scanner := sc\<rparr>)))"

text \<open>
  The mutually recursive functions of the grammar (parser.ts: \<^verbatim>\<open>parseType\<close> lines 14-38,
  \<^verbatim>\<open>parseObject\<close> 65-71, \<^verbatim>\<open>parseTypeLiteralMember\<close> 73-82, \<^verbatim>\<open>parseArray\<close> 84-92,
  \<^verbatim>\<open>parseNullable\<close> 94-100, \<^verbatim>\<open>parseUnion\<close> 120-128, \<^verbatim>\<open>parseFunction\<close> 130-140,
  \<^verbatim>\<open>parseFunctionParameter\<close> 142-166). The first argument bounds the nesting depth of
  types: \<open>parseType\<close> passes one less to the production it dispatches to, and every
  other function passes its own bound on. It also bounds the length of each list. The
  bound is never reached (\<open>parse_returns\<close> below).
\<close>

fun parseType :: "nat \<Rightarrow> ParserState \<Rightarrow> TypeNode outcome"
  and parseObject :: "nat \<Rightarrow> ParserState \<Rightarrow> TypeNode outcome"
  and parseTypeLiteralMember :: "nat \<Rightarrow> ParserState \<Rightarrow> ObjectMemberTypeNode outcome"
  and parseArray :: "nat \<Rightarrow> ParserState \<Rightarrow> TypeNode outcome"
  and parseNullable :: "nat \<Rightarrow> ParserState \<Rightarrow> TypeNode outcome"
  and parseUnion :: "nat \<Rightarrow> ParserState \<Rightarrow> TypeNode outcome"
  and parseFunction :: "nat \<Rightarrow> ParserState \<Rightarrow> TypeNode outcome"
  and parseFunctionParameter :: "nat \<Rightarrow> ParserState \<Rightarrow> FunctionParameterTypeNode outcome"
where
  "parseType 0 st = None"
| "parseType (Suc n) st =
     (case token st of
        AsteriskToken \<Rightarrow> parseAny st
      | AnyKeyword \<Rightarrow> parseAny st
      | OpenBracketToken \<Rightarrow> parseArray n st
      | OpenParenToken \<Rightarrow> parseFunction n st
      | QuestionToken \<Rightarrow> parseNullable n st
      | Identifier \<Rightarrow> parseEntity st
      | UnionKeyword \<Rightarrow> parseUnion n st
      | OpenBraceToken \<Rightarrow> parseObject n st
      | StringLiteral \<Rightarrow> parseStringLiteral st
      | NumberLiteral \<Rightarrow> parseNumberLiteral st
      | _ \<Rightarrow> raise (UnableToParse (token st)))"
| "parseObject n st =
     (case invariant (token st = OpenBraceToken) of
        Inl e \<Rightarrow> raise e
      | Inr _ \<Rightarrow>
          andThen (parseBracketedList n LiteralTypeMembers (parseTypeLiteralMember n)
                     OpenBraceToken CloseBraceToken st)
            (\<lambda>members st1. ok (ObjectTypeNode members) st1))"
| "parseTypeLiteralMember n st =
     andThen (parseIdentifier st) (\<lambda>name st1.
       andThen (skipExpected ColonToken st1) (\<lambda>_ st2.
         andThen (parseType n st2) (\<lambda>type st3. ok (ObjectMemberTypeNode name type) st3)))"
| "parseArray n st =
     andThen (skipExpected OpenBracketToken st) (\<lambda>_ st1.
       andThen (parseType n st1) (\<lambda>type st2.
         andThen (skipExpected CloseBracketToken st2) (\<lambda>_ st3. ok (ArrayTypeNode type) st3)))"
| "parseNullable n st =
     andThen (nextToken st) (\<lambda>_ st1.
       andThen (parseType n st1) (\<lambda>type st2. ok (NullableTypeNode type) st2))"
| "parseUnion n st =
     (case invariant (token st = UnionKeyword) of
        Inl e \<Rightarrow> raise e
      | Inr _ \<Rightarrow>
          andThen (nextToken st) (\<lambda>_ st1.
            andThen (parseBracketedList n TypeParameters (parseType n)
                       LessThanToken GreaterThanToken st1)
              (\<lambda>types st2. ok (UnionTypeNode types) st2)))"
| "parseFunction n st =
     andThen (parseBracketedList n Parameters (parseFunctionParameter n)
                OpenParenToken CloseParenToken st)
       (\<lambda>parameters st1.
         andThen (skipOptional RightArrowToken st1) (\<lambda>arrow st2.
           if arrow then
             andThen (parseType n st2) (\<lambda>type st3.
               ok (FunctionTypeNode parameters (Some type)) st3)
           else ok (FunctionTypeNode parameters None) st2))"
| "parseFunctionParameter n st =
     andThen (parseFunctionParameterName st) (\<lambda>(name, rest) st1.
       andThen (parseType n st1) (\<lambda>type st2.
         ok (FunctionParameterTypeNode type
               (if truthy name then name else None)
               (if rest = Some True then rest else None)) st2))"

declare parseObject.simps [simp del] parseTypeLiteralMember.simps [simp del]
  parseArray.simps [simp del] parseNullable.simps [simp del] parseUnion.simps [simp del]
  parseFunction.simps [simp del] parseFunctionParameter.simps [simp del]

definition parse :: "string \<Rightarrow> (error + TypeNode) option" where
  \<comment> \<open>The entry point: the scanner is created, the first token is scanned, and the result
      of \<open>parseType\<close> is returned. No annotation nests deeper, or holds a longer list,
      than it has characters, which gives the bound.\<close>
  "parse txt =
     (case scan (createScanner txt) of
        Inl e \<Rightarrow> Some (Inl e)
      | Inr (kind, sc) \<Rightarrow>
          (case parseType (Suc (length txt)) \<lparr>token = kind, scanner = sc\<rparr> of
             None \<Rightarrow> None
           | Some (Inl e) \<Rightarrow> Some (Inl e)
           | Some (Inr (node, st)) \<Rightarrow> Some (Inr node)))"

section \<open>Notions used in the properties\<close>

definition unread :: "ParserState \<Rightarrow> nat" where
  \<comment> \<open>What is left to parse: the characters after the current token, and the current
      token itself unless it is the end token.\<close>
  "unread st = length (remaining (scanner st)) + (if token st = EndOfFileToken then 0 else 1)"

definition below :: "nat \<Rightarrow> 'a outcome \<Rightarrow> bool" where
  \<comment> \<open>The call was not cut short, and if it returned, less than \<open>b\<close> is left to parse.\<close>
  "below b r =
     (case r of None \<Rightarrow> False | Some (Inl e) \<Rightarrow> True | Some (Inr (x, st)) \<Rightarrow> unread st < b)"

definition returns :: "'a outcome \<Rightarrow> ('a \<Rightarrow> ParserState \<Rightarrow> bool) \<Rightarrow> bool" where
  \<comment> \<open>If the call returned a value and a state, they satisfy \<open>Q\<close>.\<close>
  "returns r Q = (case r of Some (Inr (x, st)) \<Rightarrow> Q x st | _ \<Rightarrow> True)"

fun entityNames :: "TypeNode \<Rightarrow> string list"
  and parameterEntityNames :: "FunctionParameterTypeNode \<Rightarrow> string list"
  and memberEntityNames :: "ObjectMemberTypeNode \<Rightarrow> string list"
where
  \<comment> \<open>The names of all Entity nodes of a tree, in source order.\<close>
  "entityNames AnyTypeNode = []"
| "entityNames (EntityTypeNode name) = [name]"
| "entityNames (NullableTypeNode t) = entityNames t"
| "entityNames (UnionTypeNode ts) = concat (map entityNames ts)"
| "entityNames (FunctionTypeNode ps rt) =
     concat (map parameterEntityNames ps) @ (case rt of None \<Rightarrow> [] | Some t \<Rightarrow> entityNames t)"
| "entityNames (ArrayTypeNode t) = entityNames t"
| "entityNames (ObjectTypeNode ms) = concat (map memberEntityNames ms)"
| "entityNames (StringLiteralTypeNode v) = []"
| "entityNames (NumberLiteralTypeNode v) = []"
| "parameterEntityNames (FunctionParameterTypeNode t name rest) = entityNames t"
| "memberEntityNames (ObjectMemberTypeNode name t) = entityNames t"

definition isIdentifierName :: "string \<Rightarrow> bool" where
  \<comment> \<open>The text of an identifier token: it starts and continues as \<open>scanWord\<close> reads it, and
      is neither keyword.\<close>
  "isIdentifierName w =
     (w \<noteq> [] \<and> isIdentifierStart (hd w) \<and> list_all isIdentifierPart w
      \<and> w \<noteq> ''any'' \<and> w \<noteq> ''union'')"

fun joinDots :: "string list \<Rightarrow> string" where
  \<comment> \<open>The words joined by dots.\<close>
  "joinDots [] = []"
| "joinDots [w] = w"
| "joinDots (w # ws) = w @ ''.'' @ joinDots ws"

definition dotted :: "string \<Rightarrow> bool" where
  \<comment> \<open>One or more identifiers joined by dots.\<close>
  "dotted name = (\<exists>ids. ids \<noteq> [] \<and> list_all isIdentifierName ids \<and> name = joinDots ids)"

definition scanned :: "ParserState \<Rightarrow> bool" where
  \<comment> \<open>The state holds a token as \<open>scan\<close> leaves it: an identifier token comes with the
      text of an identifier.\<close>
  "scanned st = (token st \<noteq> Identifier \<or> isIdentifierName (tokenValue (scanner st)))"

definition wellNamed :: "TypeNode \<Rightarrow> ParserState \<Rightarrow> bool" where
  "wellNamed t st = (scanned st \<and> list_all dotted (entityNames t))"


section \<open>Every call of the parser returns\<close>

text \<open>
  \<open>unread\<close> counts what is left to parse: the characters after the current token, and
  the current token itself unless it is the end token. Every token the parser skips
  makes it smaller, so a bound above it is never used up: \<open>parseType\<close> never runs into
  the bound, and \<open>parse\<close> always returns a tree or raises.
\<close>

lemma below_ok [simp]: "below b (ok x st) \<longleftrightarrow> unread st < b"
  by (simp add: below_def ok_def)

lemma below_raise [simp]: "below b (raise e)"
  by (simp add: below_def raise_def)

lemma below_None [simp]: "\<not> below b None"
  by (simp add: below_def)




lemma below_nextToken_strict: "token st \<noteq> EndOfFileToken \<Longrightarrow> below (unread st) (nextToken st)"
  by (auto simp: below_def nextToken_def ok_def raise_def unread_def
      split: sum.splits dest: scan_length)



lemma below_skipOptional_strict:
  "kind \<noteq> EndOfFileToken \<Longrightarrow> skipOptional kind st = Some (Inr (True, st')) \<Longrightarrow> unread st' < unread st"
  using below_nextToken_strict [of st]
  by (auto simp: skipOptional_def andThen_def ok_def below_def split: if_splits option.splits sum.splits)









lemma lookAhead_restores: "lookAhead callback sc = Inr (result, sc') \<Longrightarrow> sc' = sc"
  by (auto simp: lookAhead_def split: sum.splits)











section \<open>What a call returns\<close>

text \<open>
  \<open>returns r Q\<close>: if the call \<open>r\<close> returns a value and a state, they satisfy \<open>Q\<close>
  (nothing is said of a call that raises). The rules below carry such a property through
  \<open>andThen\<close>, the list loop and the mutually recursive productions.
\<close>

lemma returns_ok [simp]: "returns (ok x st) Q \<longleftrightarrow> Q x st"
  by (simp add: returns_def ok_def)

lemma returns_raise [simp]: "returns (raise e) Q"
  by (simp add: returns_def raise_def)

lemma returns_None [simp]: "returns None Q"
  by (simp add: returns_def)

lemma returns_andThen [simp]:
  "returns (andThen m f) Q \<longleftrightarrow> returns m (\<lambda>x st. returns (f x st) Q)"
  by (simp add: returns_def andThen_def split: option.splits sum.splits)

lemma returns_True [simp]: "returns r (\<lambda>x st. True)"
  by (simp add: returns_def split: option.splits sum.splits)

lemma returns_mono: "returns r Q \<Longrightarrow> (\<And>x st. Q x st \<Longrightarrow> Q' x st) \<Longrightarrow> returns r Q'"
  by (auto simp: returns_def split: option.splits sum.splits)

lemma returnsD: "returns r Q \<Longrightarrow> r = Some (Inr (x, st)) \<Longrightarrow> Q x st"
  by (simp add: returns_def)

lemma returnsI: "(\<And>x st. r = Some (Inr (x, st)) \<Longrightarrow> Q x st) \<Longrightarrow> returns r Q"
  by (auto simp: returns_def split: option.splits sum.splits)

lemma joinDots_snoc: "ids \<noteq> [] \<Longrightarrow> joinDots (ids @ [w]) = joinDots ids @ ''.'' @ w"
  by (induction ids rule: joinDots.induct) auto

lemma dotted_single: "isIdentifierName w \<Longrightarrow> dotted w"
  unfolding dotted_def by (rule exI [of _ "[w]"]) simp

lemma dotted_snoc: "dotted name \<Longrightarrow> isIdentifierName w \<Longrightarrow> dotted (name @ ''.'' @ w)"
  unfolding dotted_def
proof (elim exE conjE)
  fix ids
  assume "isIdentifierName w" "ids \<noteq> []" "list_all isIdentifierName ids" "name = joinDots ids"
  then show "\<exists>ids'. ids' \<noteq> [] \<and> list_all isIdentifierName ids' \<and> name @ ''.'' @ w = joinDots ids'"
    by (intro exI [of _ "ids @ [w]"]) (simp add: joinDots_snoc)
qed

lemma dotted_nonempty: "dotted name \<Longrightarrow> name \<noteq> []"
  unfolding dotted_def
proof (elim exE conjE)
  fix ids
  assume "ids \<noteq> []" "list_all isIdentifierName ids" "name = joinDots ids"
  then show "name \<noteq> []"
    by (cases ids rule: joinDots.cases) (auto simp: isIdentifierName_def)
qed

lemma scanWord_Identifier:
  assumes "isIdentifierStart c" and "scanWord (c # cs) = Inr (Identifier, sc')"
  shows "isIdentifierName (tokenValue sc')"
proof -
  let ?w = "takeWhile isIdentifierPart (c # cs)"
  from assms(1) have hd: "?w = c # takeWhile isIdentifierPart cs"
    by (simp add: isIdentifierPart_def)
  have parts: "list_all isIdentifierPart ?w"
    unfolding list_all_iff by (blast dest: set_takeWhileD)
  from assms(2) have "tokenValue sc' = ?w" "?w \<noteq> ''any''" "?w \<noteq> ''union''"
    by (auto simp: scanWord_def Let_def split: if_splits)
  with hd parts assms(1) show ?thesis
    unfolding isIdentifierName_def by simp
qed

lemma scan_Identifier:
  assumes "scan sc = Inr (Identifier, sc')"
  shows "isIdentifierName (tokenValue sc')"
proof (cases "dropWhile isWhiteSpace (remaining sc)")
  case Nil
  with assms show ?thesis by (simp add: scan_def)
next
  case (Cons c cs)
  with assms have "isIdentifierStart c" and "scanWord (c # cs) = Inr (Identifier, sc')"
    by (auto simp: scan_def punctuation_def split: if_splits option.splits)
  then show ?thesis by (rule scanWord_Identifier)
qed

lemma nextToken_scanned: "returns (nextToken st) (\<lambda>_ st'. scanned st')"
  by (auto simp: nextToken_def scanned_def split: sum.splits dest: scan_Identifier)

lemma skipExpected_scanned: "returns (skipExpected kind st) (\<lambda>_ st'. scanned st')"
  by (simp add: skipExpected_def nextToken_scanned)

lemma skipOptional_scanned: "scanned st \<Longrightarrow> returns (skipOptional kind st) (\<lambda>_ st'. scanned st')"
  using nextToken_scanned [of st] by (simp add: skipOptional_def)

lemma parseIdentifier_scanned:
  "scanned st \<Longrightarrow> returns (parseIdentifier st) (\<lambda>name st'. isIdentifierName name \<and> scanned st')"
  using nextToken_scanned [of st]
  by (auto simp: parseIdentifier_def invariant_def Let_def getTokenValue_def scanned_def
      elim: returns_mono)

lemma parseEntityNames_dotted:
  "scanned st \<Longrightarrow> dotted name \<Longrightarrow>
   returns (parseEntityNames name st) (\<lambda>name' st'. dotted name' \<and> scanned st')"
proof (induction name st rule: parseEntityNames.induct)
  case (1 name st)
  show ?case
  proof (subst parseEntityNames.simps, subst returns_andThen, rule returnsI, goal_cases)
    case (1 found st1)
    with skipOptional_scanned [OF \<open>scanned st\<close>, of DotToken] have st1: "scanned st1"
      by (auto dest: returnsD)
    show ?case
    proof (cases found)
      case False
      with st1 \<open>dotted name\<close> show ?thesis by simp
    next
      case True
      have "returns (parseEntityNames (name @ ''.'' @ ident) st2)
               (\<lambda>name' st'. dotted name' \<and> scanned st')"
        if "parseIdentifier st1 = Some (Inr (ident, st2))" for ident st2
      proof -
        from parseIdentifier_scanned [OF st1] that have "isIdentifierName ident" "scanned st2"
          by (auto dest: returnsD)
        with "1.IH" [OF 1 True that] dotted_snoc [OF \<open>dotted name\<close>, of ident] show ?thesis
          by simp
      qed
      with True show ?thesis by (auto intro: returnsI)
    qed
  qed
qed

lemma parseEntity_dotted:
  "scanned st \<Longrightarrow>
   returns (parseEntity st) (\<lambda>t st'. scanned st' \<and> list_all dotted (entityNames t))"
  unfolding parseEntity_def returns_andThen
  by (rule returns_mono [OF parseIdentifier_scanned], assumption,
      rule returns_mono [OF parseEntityNames_dotted])
     (auto simp: dotted_single)

lemma parseDelimitedListFrom_returns:
  assumes pe: "\<And>st. I st \<Longrightarrow> returns (parseElement st) (\<lambda>x st'. P x \<and> I st')"
    and nt: "\<And>st. returns (nextToken st) (\<lambda>_ st'. I st')"
    and "I st" and "list_all P result"
  shows "returns (parseDelimitedListFrom k context parseElement result st)
           (\<lambda>xs st'. list_all P xs \<and> I st' \<and> isListTerminator context st')"
  using assms(3,4)
proof (induction k arbitrary: st result)
  case 0
  then show ?case by simp
next
  case (Suc k)
  show ?case
  proof (cases "isListTerminator context st")
    case True
    with Suc.prems show ?thesis by simp
  next
    case False
    have skip: "returns (skipOptional CommaToken st1) (\<lambda>_ st'. I st')" if "I st1" for st1
      using nt [of st1] that by (simp add: skipOptional_def)
    have "returns (parseElement st) (\<lambda>element st1.
            returns (skipOptional CommaToken st1) (\<lambda>_ st2.
              returns (parseDelimitedListFrom k context parseElement (result @ [element]) st2)
                (\<lambda>xs st'. list_all P xs \<and> I st' \<and> isListTerminator context st')))"
    proof (rule returns_mono [OF pe [OF Suc.prems(1)]], goal_cases)
      case (1 element st1)
      then have "P element" "I st1" by simp_all
      show ?case
      proof (rule returns_mono [OF skip [OF \<open>I st1\<close>]], goal_cases)
        case (1 u st2)
        then show ?case
          using Suc.IH [of st2 "result @ [element]"] \<open>P element\<close> Suc.prems(2) by simp
      qed
    qed
    with False show ?thesis by simp
  qed
qed

lemma parseBracketedList_returns:
  assumes pe: "\<And>st. I st \<Longrightarrow> returns (parseElement st) (\<lambda>x st'. P x \<and> I st')"
    and nt: "\<And>st. returns (nextToken st) (\<lambda>_ st'. I st')"
  shows "returns (parseBracketedList k context parseElement open close st)
           (\<lambda>xs st'. list_all P xs \<and> I st')"
proof -
  have skip: "returns (skipExpected kind st1) (\<lambda>_ st'. I st')" for kind st1
    using nt [of st1] by (simp add: skipExpected_def)
  show ?thesis
    unfolding parseBracketedList_def parseDelimitedList_def returns_andThen
  proof (rule returns_mono [OF skip], goal_cases)
    case (1 u st1)
    have "returns (parseDelimitedListFrom k context parseElement [] st1)
           (\<lambda>xs st'. list_all P xs \<and> I st' \<and> isListTerminator context st')"
      by (rule parseDelimitedListFrom_returns [OF pe nt]) (use 1 in auto)
    then show ?case
    proof (rule returns_mono, goal_cases)
      case (1 xs st2)
      then show ?case
        by (intro returns_mono [OF skip]) simp
    qed
  qed
qed

lemma parseArray_names:
  assumes "\<And>st. scanned st \<Longrightarrow> returns (parseType n st) wellNamed"
  shows "returns (parseArray n st) wellNamed"
  unfolding parseArray.simps returns_andThen
  by (rule returns_mono [OF skipExpected_scanned], rule returns_mono [OF assms], assumption,
      rule returns_mono [OF skipExpected_scanned])
     (simp add: wellNamed_def)

lemma parseNullable_names:
  assumes "\<And>st. scanned st \<Longrightarrow> returns (parseType n st) wellNamed"
  shows "returns (parseNullable n st) wellNamed"
  unfolding parseNullable.simps returns_andThen
  by (rule returns_mono [OF nextToken_scanned], rule returns_mono [OF assms], assumption)
     (simp add: wellNamed_def)

lemma parseUnion_names:
  assumes "\<And>st. scanned st \<Longrightarrow> returns (parseType n st) wellNamed"
  shows "returns (parseUnion n st) wellNamed"
proof -
  have "returns (parseBracketedList n TypeParameters (parseType n) LessThanToken GreaterThanToken st1)
          (\<lambda>ts st'. list_all (\<lambda>t. list_all dotted (entityNames t)) ts \<and> scanned st')" for st1
    by (rule parseBracketedList_returns [OF _ nextToken_scanned])
       (auto intro: returns_mono [OF assms] simp: wellNamed_def)
  then have "returns (parseBracketedList n TypeParameters (parseType n) LessThanToken GreaterThanToken st1)
          (\<lambda>ts st'. wellNamed (UnionTypeNode ts) st')" for st1
    by (rule returns_mono) (auto simp: wellNamed_def list_all_iff)
  then show ?thesis
    by (simp add: parseUnion.simps invariant_def)
qed

lemma parseTypeLiteralMember_names:
  assumes "\<And>st. scanned st \<Longrightarrow> returns (parseType n st) wellNamed"
    and "scanned st"
  shows "returns (parseTypeLiteralMember n st)
           (\<lambda>m st'. list_all dotted (memberEntityNames m) \<and> scanned st')"
  unfolding parseTypeLiteralMember.simps returns_andThen
  by (rule returns_mono [OF parseIdentifier_scanned [OF assms(2)]],
      rule returns_mono [OF skipExpected_scanned], rule returns_mono [OF assms(1)], assumption)
     (simp add: wellNamed_def)

lemma parseObject_names:
  assumes "\<And>st. scanned st \<Longrightarrow> returns (parseType n st) wellNamed"
  shows "returns (parseObject n st) wellNamed"
proof -
  have "returns (parseBracketedList n LiteralTypeMembers (parseTypeLiteralMember n)
                   OpenBraceToken CloseBraceToken st)
          (\<lambda>ms st'. list_all (\<lambda>m. list_all dotted (memberEntityNames m)) ms \<and> scanned st')"
    by (rule parseBracketedList_returns [OF _ nextToken_scanned])
       (rule parseTypeLiteralMember_names [OF assms])
  then have "returns (parseBracketedList n LiteralTypeMembers (parseTypeLiteralMember n)
                   OpenBraceToken CloseBraceToken st)
          (\<lambda>ms st'. wellNamed (ObjectTypeNode ms) st')"
    by (rule returns_mono) (auto simp: wellNamed_def list_all_iff)
  then show ?thesis
    by (simp add: parseObject.simps invariant_def)
qed

lemma parseFunctionParameterName_scanned:
  assumes "scanned st"
  shows "returns (parseFunctionParameterName st) (\<lambda>_ st'. scanned st')"
proof -
  have named: "returns (andThen (parseIdentifier st0) (\<lambda>name st1.
                 andThen (skipExpected ColonToken st1) (\<lambda>_ st2. ok (f name) st2)))
            (\<lambda>_ st'. scanned st')" for st0 and f :: "string \<Rightarrow> string option \<times> bool option"
    unfolding returns_andThen
    by (rule returnsI, rule returns_mono [OF skipExpected_scanned]) simp
  have rest: "returns (andThen (nextToken st) (\<lambda>_ st1.
          andThen (parseIdentifier st1) (\<lambda>name st2.
            andThen (skipExpected ColonToken st2) (\<lambda>_ st3. ok (Some name, Some True) st3))))
            (\<lambda>_ st'. scanned st')"
    unfolding returns_andThen
    by (rule returnsI, rule returnsI, rule returns_mono [OF skipExpected_scanned]) simp
  show ?thesis
  proof (cases "lookAhead (isNamedFunctionParameterStart (token st)) (scanner st)")
    case (Inl e)
    with rest show ?thesis by (simp add: parseFunctionParameterName_def)
  next
    case (Inr r)
    obtain named' sc where r: "r = (named', sc)" by (cases r)
    with Inr have "sc = scanner st" by (auto dest: lookAhead_restores)
    with Inr r rest named [of st "\<lambda>name. (Some name, None)"] assms show ?thesis
      by (simp add: parseFunctionParameterName_def)
  qed
qed

lemma parseFunctionParameter_names:
  assumes "\<And>st. scanned st \<Longrightarrow> returns (parseType n st) wellNamed"
    and "scanned st"
  shows "returns (parseFunctionParameter n st)
           (\<lambda>p st'. list_all dotted (parameterEntityNames p) \<and> scanned st')"
  unfolding parseFunctionParameter.simps returns_andThen
proof (rule returns_mono [OF parseFunctionParameterName_scanned [OF assms(2)]], goal_cases)
  case (1 x st1)
  obtain name rest where x: "x = (name, rest)" by (cases x)
  from assms(1) [OF 1] show ?case
    unfolding x by (simp, elim returns_mono) (simp add: wellNamed_def)
qed

lemma parseFunction_names:
  assumes "\<And>st. scanned st \<Longrightarrow> returns (parseType n st) wellNamed"
  shows "returns (parseFunction n st) wellNamed"
proof -
  have "returns (parseBracketedList n Parameters (parseFunctionParameter n)
                   OpenParenToken CloseParenToken st)
          (\<lambda>ps st'. list_all (\<lambda>p. list_all dotted (parameterEntityNames p)) ps \<and> scanned st')"
    by (rule parseBracketedList_returns [OF _ nextToken_scanned])
       (rule parseFunctionParameter_names [OF assms])
  then show ?thesis
    unfolding parseFunction.simps returns_andThen
  proof (rule returns_mono, goal_cases)
    case (1 ps st1)
    then have ps: "list_all dotted (concat (map parameterEntityNames ps))" and st1: "scanned st1"
      by (auto simp: list_all_iff)
    show ?case
    proof (rule returns_mono [OF skipOptional_scanned [OF st1]], goal_cases)
      case (1 arrow st2)
      with ps show ?case
        by (auto simp: wellNamed_def intro: returns_mono [OF assms])
    qed
  qed
qed

lemma parseType_names: "scanned st \<Longrightarrow> returns (parseType n st) wellNamed"
proof (induction n arbitrary: st)
  case 0
  then show ?case by simp
next
  case (Suc n)
  have leaf: "returns (parseAny st) wellNamed" "returns (parseStringLiteral st) wellNamed"
    "returns (parseNumberLiteral st) wellNamed"
    by (auto simp: parseAny_def parseStringLiteral_def parseNumberLiteral_def Let_def wellNamed_def
        intro: returns_mono [OF nextToken_scanned])
  have entity: "returns (parseEntity st) wellNamed"
    using parseEntity_dotted [OF Suc.prems] by (simp add: wellNamed_def [abs_def])
  show ?case
    using leaf entity parseArray_names [OF Suc.IH] parseNullable_names [OF Suc.IH]
      parseUnion_names [OF Suc.IH] parseObject_names [OF Suc.IH] parseFunction_names [OF Suc.IH]
    by (cases "token st") simp_all
qed

lemma parse_names:
  assumes "parse txt = Some (Inr node)"
  shows "list_all dotted (entityNames node)"
proof -
  from assms obtain kind sc st
    where first: "scan (createScanner txt) = Inr (kind, sc)"
      and node: "parseType (Suc (length txt)) \<lparr>token = kind, scanner = sc\<rparr> = Some (Inr (node, st))"
    by (auto simp: parse_def split: option.splits sum.splits)
  from first have "scanned \<lparr>token = kind, scanner = sc\<rparr>"
    by (auto simp: scanned_def dest: scan_Identifier)
  from returnsD [OF parseType_names [OF this] node] show ?thesis
    by (simp add: wellNamed_def)
qed

subsection \<open>A call that returns, step by step\<close>

lemma ok_eq [simp]: "ok x st = Some (Inr (y, st')) \<longleftrightarrow> x = y \<and> st = st'"
  by (auto simp: ok_def)

lemma raise_neq [simp]: "raise e \<noteq> Some (Inr r)" "raise e \<noteq> None"
  by (simp_all add: raise_def)

lemma raise_eq [simp]: "raise e = Some (Inl e') \<longleftrightarrow> e = e'"
  by (auto simp: raise_def)

lemma ok_neq [simp]: "ok x st \<noteq> Some (Inl e)" "ok x st \<noteq> None"
  by (simp_all add: ok_def)

lemma andThen_Inr:
  "andThen m f = Some (Inr r) \<longleftrightarrow> (\<exists>x st. m = Some (Inr (x, st)) \<and> f x st = Some (Inr r))"
  by (auto simp: andThen_def split: option.splits sum.splits)

lemma andThen_ok [simp]: "andThen (ok x st) f = f x st"
  by (simp add: andThen_def ok_def)

lemma andThen_Some_Inr [simp]: "andThen (Some (Inr (x, st))) f = f x st"
  by (simp add: andThen_def)

lemma andThen_raise [simp]: "andThen (raise e) f = raise e"
  by (simp add: andThen_def raise_def)

lemma andThen_Some_Inl [simp]: "andThen (Some (Inl e)) f = Some (Inl e)"
  by (simp add: andThen_def)

lemma skipExpected_Inr:
  "skipExpected kind st = Some (Inr (u, st')) \<longleftrightarrow>
     token st = kind \<and> nextToken st = Some (Inr (u, st'))"
  by (auto simp: skipExpected_def)

lemma skipOptional_Inr:
  "skipOptional kind st = Some (Inr (found, st')) \<longleftrightarrow>
     (if token st = kind then found \<and> nextToken st = Some (Inr ((), st'))
      else \<not> found \<and> st' = st)"
  by (auto simp: skipOptional_def andThen_Inr)

lemma parseIdentifier_Inr:
  "parseIdentifier st = Some (Inr (name, st')) \<longleftrightarrow>
     token st = Identifier \<and> name = tokenValue (scanner st) \<and> nextToken st = Some (Inr ((), st'))"
  by (auto simp: parseIdentifier_def invariant_def Let_def getTokenValue_def andThen_Inr)

lemma nextToken_Identifier_nonempty:
  assumes "nextToken st = Some (Inr (u, st1))" and "token st1 = Identifier"
  shows "tokenValue (scanner st1) \<noteq> []"
  using assms scan_Identifier [of "scanner st" "scanner st1"]
  by (auto simp: nextToken_Inr isIdentifierName_def)

section \<open>The inputs of the repository's parser test\<close>

text \<open>
  The trees of the inputs the repository's test of the parser checks. For the inputs
  with parameters the test's fixtures show the parameter's type alone, where
  \<^verbatim>\<open>parseFunctionParameter\<close> returns a FunctionParameter node around it; these are left
  out here (C1 has \<^verbatim>\<open>(a) -> b\<close>).
\<close>

lemma test_inputs:
  "parse ''a'' = Some (Inr (EntityTypeNode ''a''))"
  "parse ''a.b'' = Some (Inr (EntityTypeNode ''a.b''))"
  "parse ''?a'' = Some (Inr (NullableTypeNode (EntityTypeNode ''a'')))"
  "parse [CHR 0x22, CHR ''a'', CHR 0x22] = Some (Inr (StringLiteralTypeNode ''a''))"
  "parse ''union<a>'' = Some (Inr (UnionTypeNode [EntityTypeNode ''a'']))"
  "parse ''union<a, b>'' = Some (Inr (UnionTypeNode [EntityTypeNode ''a'', EntityTypeNode ''b'']))"
  "parse ''?()'' = Some (Inr (NullableTypeNode (FunctionTypeNode [] None)))"
  "parse (''?() '' @ rightArrow @ '' a'')
     = Some (Inr (NullableTypeNode (FunctionTypeNode [] (Some (EntityTypeNode ''a'')))))"
  "parse ''[a]'' = Some (Inr (ArrayTypeNode (EntityTypeNode ''a'')))"
  "parse ''{node: dom.Node, offset: number}''
     = Some (Inr (ObjectTypeNode
         [ObjectMemberTypeNode ''node'' (EntityTypeNode ''dom.Node''),
          ObjectMemberTypeNode ''offset'' (EntityTypeNode ''number'')]))"
  by code_simp+

section \<open>Properties of the parser\<close>

text \<open>
  C1. Whether a function parameter is named is decided by looking ahead, and the look
  ahead consumes nothing. \<^verbatim>\<open>(a) -> b\<close> has one unnamed parameter of type Entity \<^verbatim>\<open>a\<close>,
  \<^verbatim>\<open>(a: b) -> c\<close> has one parameter named \<^verbatim>\<open>a\<close> of type Entity \<^verbatim>\<open>b\<close>, and
  \<^verbatim>\<open>(a.b) -> c\<close> has one unnamed parameter of type Entity \<^verbatim>\<open>a.b\<close> (the arrow is U+2192 in
  the inputs). In general, when the parameter does not start with the rest marker and the
  check "identifier, then colon" fails, wherever the check left the scanner, the parameter
  is the type parsed from the very state the parameter started in; when the check
  succeeds, the identifier is the name, the colon is skipped and the type follows.
\<close>

theorem parameter_naming_lookahead:
  "parse (''(a) '' @ rightArrow @ '' b'')
     = Some (Inr (FunctionTypeNode
         [FunctionParameterTypeNode (EntityTypeNode ''a'') None None]
         (Some (EntityTypeNode ''b''))))
   \<and> parse (''(a: b) '' @ rightArrow @ '' c'')
     = Some (Inr (FunctionTypeNode
         [FunctionParameterTypeNode (EntityTypeNode ''b'') (Some ''a'') None]
         (Some (EntityTypeNode ''c''))))
   \<and> parse (''(a.b) '' @ rightArrow @ '' c'')
     = Some (Inr (FunctionTypeNode
         [FunctionParameterTypeNode (EntityTypeNode ''a.b'') None None]
         (Some (EntityTypeNode ''c''))))
   \<and> (\<forall>n st sc'.
         token st \<noteq> DotDotDotToken
         \<and> isNamedFunctionParameterStart (token st) (scanner st) = Inr (False, sc')
         \<longrightarrow> parseFunctionParameter n st
             = andThen (parseType n st) (\<lambda>type st'.
                 ok (FunctionParameterTypeNode type None None) st'))
   \<and> (\<forall>n st sc'.
         isNamedFunctionParameterStart (token st) (scanner st) = Inr (True, sc')
         \<longrightarrow> parseFunctionParameter n st
             = andThen (parseIdentifier st) (\<lambda>name st1.
                 andThen (skipExpected ColonToken st1) (\<lambda>_ st2.
                   andThen (parseType n st2) (\<lambda>type st'.
                     ok (FunctionParameterTypeNode type
                           (if name \<noteq> [] then Some name else None) None) st'))))"
proof -
  have a: "parse (''(a) '' @ rightArrow @ '' b'')
     = Some (Inr (FunctionTypeNode
         [FunctionParameterTypeNode (EntityTypeNode ''a'') None None]
         (Some (EntityTypeNode ''b''))))"
    by code_simp
  have b: "parse (''(a: b) '' @ rightArrow @ '' c'')
     = Some (Inr (FunctionTypeNode
         [FunctionParameterTypeNode (EntityTypeNode ''b'') (Some ''a'') None]
         (Some (EntityTypeNode ''c''))))"
    by code_simp
  have c: "parse (''(a.b) '' @ rightArrow @ '' c'')
     = Some (Inr (FunctionTypeNode
         [FunctionParameterTypeNode (EntityTypeNode ''a.b'') None None]
         (Some (EntityTypeNode ''c''))))"
    by code_simp
  have unnamed: "parseFunctionParameter n st
             = andThen (parseType n st) (\<lambda>type st'.
                 ok (FunctionParameterTypeNode type None None) st')"
    if "token st \<noteq> DotDotDotToken"
      and "isNamedFunctionParameterStart (token st) (scanner st) = Inr (False, sc')"
    for n st sc'
    using that
    by (simp add: parseFunctionParameter.simps parseFunctionParameterName_def lookAhead_def
        truthy_def)
  have named: "parseFunctionParameter n st
             = andThen (parseIdentifier st) (\<lambda>name st1.
                 andThen (skipExpected ColonToken st1) (\<lambda>_ st2.
                   andThen (parseType n st2) (\<lambda>type st'.
                     ok (FunctionParameterTypeNode type
                           (if name \<noteq> [] then Some name else None) None) st')))"
    if "isNamedFunctionParameterStart (token st) (scanner st) = Inr (True, sc')"
    for n st sc'
  proof -
    from that have "token st = Identifier"
      by (auto simp: isNamedFunctionParameterStart_def split: if_splits)
    with that show ?thesis
      by (simp add: parseFunctionParameter.simps parseFunctionParameterName_def lookAhead_def
          truthy_def andThen_def split: option.splits sum.splits)
  qed
  from a b c unnamed named show ?thesis by blast
qed

theorem parameter_naming_lookahead_witness:
  "isNamedFunctionParameterStart Identifier \<lparr>remaining = ''.b)'', tokenValue = ''a''\<rparr>
       = Inr (False, \<lparr>remaining = ''b)'', tokenValue = []\<rparr>)
   \<and> parseFunctionParameter 1 \<lparr>token = Identifier, scanner = \<lparr>remaining = ''.b)'', tokenValue = ''a''\<rparr>\<rparr>
       = Some (Inr (FunctionParameterTypeNode (EntityTypeNode ''a.b'') None None,
           \<lparr>token = CloseParenToken, scanner = \<lparr>remaining = [], tokenValue = []\<rparr>\<rparr>))
   \<and> isNamedFunctionParameterStart Identifier \<lparr>remaining = '': b)'', tokenValue = ''a''\<rparr>
       = Inr (True, \<lparr>remaining = '' b)'', tokenValue = []\<rparr>)
   \<and> parseFunctionParameter 1 \<lparr>token = Identifier, scanner = \<lparr>remaining = '': b)'', tokenValue = ''a''\<rparr>\<rparr>
       = Some (Inr (FunctionParameterTypeNode (EntityTypeNode ''b'') (Some ''a'') None,
           \<lparr>token = CloseParenToken, scanner = \<lparr>remaining = [], tokenValue = []\<rparr>\<rparr>))"
proof -
  let ?st = "\<lparr>token = Identifier, scanner = \<lparr>remaining = ''.b)'', tokenValue = ''a''\<rparr>\<rparr>"
  let ?st' = "\<lparr>token = Identifier, scanner = \<lparr>remaining = '': b)'', tokenValue = ''a''\<rparr>\<rparr>"
  have l: "isNamedFunctionParameterStart (token ?st) (scanner ?st)
       = Inr (False, \<lparr>remaining = ''b)'', tokenValue = []\<rparr>)"
    by code_simp
  have t: "token ?st \<noteq> DotDotDotToken" by simp
  have p: "parseType 1 ?st = Some (Inr (EntityTypeNode ''a.b'',
           \<lparr>token = CloseParenToken, scanner = \<lparr>remaining = [], tokenValue = []\<rparr>\<rparr>))"
    by code_simp
  from parameter_naming_lookahead t l
  have e: "parseFunctionParameter 1 ?st
       = andThen (parseType 1 ?st) (\<lambda>type st'. ok (FunctionParameterTypeNode type None None) st')"
    by blast
  have l': "isNamedFunctionParameterStart (token ?st') (scanner ?st')
       = Inr (True, \<lparr>remaining = '' b)'', tokenValue = []\<rparr>)"
    by code_simp
  have p': "andThen (parseIdentifier ?st') (\<lambda>name st1.
                 andThen (skipExpected ColonToken st1) (\<lambda>_ st2.
                   andThen (parseType 1 st2) (\<lambda>type st'.
                     ok (FunctionParameterTypeNode type
                           (if name \<noteq> [] then Some name else None) None) st')))
       = Some (Inr (FunctionParameterTypeNode (EntityTypeNode ''b'') (Some ''a'') None,
           \<lparr>token = CloseParenToken, scanner = \<lparr>remaining = [], tokenValue = []\<rparr>\<rparr>))"
    by code_simp
  from parameter_naming_lookahead l'
  have e': "parseFunctionParameter 1 ?st'
       = andThen (parseIdentifier ?st') (\<lambda>name st1.
                 andThen (skipExpected ColonToken st1) (\<lambda>_ st2.
                   andThen (parseType 1 st2) (\<lambda>type st'.
                     ok (FunctionParameterTypeNode type
                           (if name \<noteq> [] then Some name else None) None) st')))"
    by blast
  from e p l e' p' l' show ?thesis by simp
qed

text \<open>
  C2. Whenever \<open>parseFunction\<close> returns, it returns a Function node, and the node has a
  return type if and only if the arrow was the current token right after the closing
  parenthesis of the parameter list was skipped. Without the arrow the field is absent
  (\<open>None\<close>: the key is never assigned).
\<close>

theorem function_return_type:
  "(\<forall>n st node st'. parseFunction n st = Some (Inr (node, st')) \<longrightarrow>
      (\<exists>ps rt st1.
          node = FunctionTypeNode ps rt
        \<and> parseBracketedList n Parameters (parseFunctionParameter n)
            OpenParenToken CloseParenToken st = Some (Inr (ps, st1))
        \<and> (rt \<noteq> None \<longleftrightarrow> token st1 = RightArrowToken)))
   \<and> parse (''() '' @ rightArrow @ '' a'') = Some (Inr (FunctionTypeNode [] (Some (EntityTypeNode ''a''))))
   \<and> parse ''() a'' = Some (Inr (FunctionTypeNode [] None))"
proof -
  have "\<exists>ps rt st1.
          node = FunctionTypeNode ps rt
        \<and> parseBracketedList n Parameters (parseFunctionParameter n)
            OpenParenToken CloseParenToken st = Some (Inr (ps, st1))
        \<and> (rt \<noteq> None \<longleftrightarrow> token st1 = RightArrowToken)"
    if "parseFunction n st = Some (Inr (node, st'))" for n st node st'
  proof -
    from that obtain ps st1 arrow st2
      where list: "parseBracketedList n Parameters (parseFunctionParameter n)
            OpenParenToken CloseParenToken st = Some (Inr (ps, st1))"
        and skip: "skipOptional RightArrowToken st1 = Some (Inr (arrow, st2))"
        and rest: "(if arrow then andThen (parseType n st2) (\<lambda>type st3.
               ok (FunctionTypeNode ps (Some type)) st3)
             else ok (FunctionTypeNode ps None) st2) = Some (Inr (node, st'))"
      unfolding parseFunction.simps andThen_Inr by blast
    from skip have arrow: "arrow \<longleftrightarrow> token st1 = RightArrowToken"
      by (auto simp: skipOptional_Inr split: if_splits)
    from rest obtain rt where "node = FunctionTypeNode ps rt" "rt \<noteq> None \<longleftrightarrow> arrow"
      by (auto simp: andThen_Inr split: if_splits)
    with list arrow show ?thesis by blast
  qed
  moreover have "parse (''() '' @ rightArrow @ '' a'')
      = Some (Inr (FunctionTypeNode [] (Some (EntityTypeNode ''a''))))"
    by code_simp
  moreover have "parse ''() a'' = Some (Inr (FunctionTypeNode [] None))"
    by code_simp
  ultimately show ?thesis by blast
qed

theorem function_return_type_witness:
  "parseFunction 1 \<lparr>token = OpenParenToken, scanner = \<lparr>remaining = '') a'', tokenValue = []\<rparr>\<rparr>
     = Some (Inr (FunctionTypeNode [] None,
         \<lparr>token = Identifier, scanner = \<lparr>remaining = [], tokenValue = ''a''\<rparr>\<rparr>))
   \<and> (\<exists>ps rt st1.
          FunctionTypeNode [] None = FunctionTypeNode ps rt
        \<and> parseBracketedList 1 Parameters (parseFunctionParameter 1) OpenParenToken CloseParenToken
            \<lparr>token = OpenParenToken, scanner = \<lparr>remaining = '') a'', tokenValue = []\<rparr>\<rparr>
            = Some (Inr (ps, st1))
        \<and> (rt \<noteq> None \<longleftrightarrow> token st1 = RightArrowToken))"
proof -
  have "parseFunction 1 \<lparr>token = OpenParenToken, scanner = \<lparr>remaining = '') a'', tokenValue = []\<rparr>\<rparr>
     = Some (Inr (FunctionTypeNode [] None,
         \<lparr>token = Identifier, scanner = \<lparr>remaining = [], tokenValue = ''a''\<rparr>\<rparr>))"
    by code_simp
  with function_return_type show ?thesis by blast
qed

text \<open>
  C3, as stated, fails: two list elements with no comma between them are accepted.
  \<^verbatim>\<open>union<a b>\<close> returns the union of \<^verbatim>\<open>a\<close> and \<^verbatim>\<open>b\<close>.
\<close>

theorem adjacent_elements_counterexample:
  "parse ''union<a b>'' = Some (Inr (UnionTypeNode [EntityTypeNode ''a'', EntityTypeNode ''b'']))"
  by code_simp

text \<open>
  C3, amended. A comma between two elements of a union type list, a parameter list or
  an object member list is skipped when it is there and is not required: after an
  element, the loop goes on from the token after the comma if the current token is a
  comma, and from the current token otherwise. So \<^verbatim>\<open>union<a b>\<close> is \<^verbatim>\<open>union<a, b>\<close>, and
  likewise for parameters and object members.
\<close>

theorem separator_optional:
  "(\<forall>k context (parseElement :: ParserState \<Rightarrow> 'a outcome) result st element st1.
      \<not> isListTerminator context st \<and> parseElement st = Some (Inr (element, st1))
      \<longrightarrow> parseDelimitedListFrom (Suc k) context parseElement result st
          = (if token st1 = CommaToken then
               andThen (nextToken st1) (\<lambda>_ st2.
                 parseDelimitedListFrom k context parseElement (result @ [element]) st2)
             else parseDelimitedListFrom k context parseElement (result @ [element]) st1))
   \<and> parse ''union<a b>'' = Some (Inr (UnionTypeNode [EntityTypeNode ''a'', EntityTypeNode ''b'']))
   \<and> parse ''union<a, b>'' = Some (Inr (UnionTypeNode [EntityTypeNode ''a'', EntityTypeNode ''b'']))
   \<and> parse ''(a ?b)'' = parse ''(a, ?b)''
   \<and> parse ''(a, ?b)''
       = Some (Inr (FunctionTypeNode
           [FunctionParameterTypeNode (EntityTypeNode ''a'') None None,
            FunctionParameterTypeNode (NullableTypeNode (EntityTypeNode ''b'')) None None] None))
   \<and> parse ''{a: b c: d}'' = parse ''{a: b, c: d}''
   \<and> parse ''{a: b, c: d}''
       = Some (Inr (ObjectTypeNode
           [ObjectMemberTypeNode ''a'' (EntityTypeNode ''b''),
            ObjectMemberTypeNode ''c'' (EntityTypeNode ''d'')]))"
proof -
  have step: "parseDelimitedListFrom (Suc k) ctx parseElement result st
          = (if token st1 = CommaToken then
               andThen (nextToken st1) (\<lambda>_ st2.
                 parseDelimitedListFrom k ctx parseElement (result @ [element]) st2)
             else parseDelimitedListFrom k ctx parseElement (result @ [element]) st1)"
    if "\<not> isListTerminator ctx st" and "parseElement st = Some (Inr (element, st1))"
    for k ctx and parseElement :: "ParserState \<Rightarrow> 'a outcome" and result st element st1
    using that
    by (simp add: skipOptional_def andThen_def ok_def split: option.splits sum.splits)
  have u1: "parse ''union<a b>'' = Some (Inr (UnionTypeNode [EntityTypeNode ''a'', EntityTypeNode ''b'']))"
    by code_simp
  have u2: "parse ''union<a, b>'' = Some (Inr (UnionTypeNode [EntityTypeNode ''a'', EntityTypeNode ''b'']))"
    by code_simp
  have f1: "parse ''(a ?b)''
       = Some (Inr (FunctionTypeNode
           [FunctionParameterTypeNode (EntityTypeNode ''a'') None None,
            FunctionParameterTypeNode (NullableTypeNode (EntityTypeNode ''b'')) None None] None))"
    by code_simp
  have f2: "parse ''(a, ?b)''
       = Some (Inr (FunctionTypeNode
           [FunctionParameterTypeNode (EntityTypeNode ''a'') None None,
            FunctionParameterTypeNode (NullableTypeNode (EntityTypeNode ''b'')) None None] None))"
    by code_simp
  have o1: "parse ''{a: b c: d}''
       = Some (Inr (ObjectTypeNode
           [ObjectMemberTypeNode ''a'' (EntityTypeNode ''b''),
            ObjectMemberTypeNode ''c'' (EntityTypeNode ''d'')]))"
    by code_simp
  have o2: "parse ''{a: b, c: d}''
       = Some (Inr (ObjectTypeNode
           [ObjectMemberTypeNode ''a'' (EntityTypeNode ''b''),
            ObjectMemberTypeNode ''c'' (EntityTypeNode ''d'')]))"
    by code_simp
  from step u1 u2 f1 f2 o1 o2 show ?thesis by presburger
qed

theorem separator_optional_witness:
  "\<not> isListTerminator TypeParameters
         \<lparr>token = Identifier, scanner = \<lparr>remaining = '' b>'', tokenValue = ''a''\<rparr>\<rparr>
   \<and> parseType 1 \<lparr>token = Identifier, scanner = \<lparr>remaining = '' b>'', tokenValue = ''a''\<rparr>\<rparr>
       = Some (Inr (EntityTypeNode ''a'',
           \<lparr>token = Identifier, scanner = \<lparr>remaining = ''>'', tokenValue = ''b''\<rparr>\<rparr>))
   \<and> parseDelimitedListFrom (Suc 2) TypeParameters (parseType 1) []
         \<lparr>token = Identifier, scanner = \<lparr>remaining = '' b>'', tokenValue = ''a''\<rparr>\<rparr>
       = parseDelimitedListFrom 2 TypeParameters (parseType 1) [EntityTypeNode ''a'']
         \<lparr>token = Identifier, scanner = \<lparr>remaining = ''>'', tokenValue = ''b''\<rparr>\<rparr>
   \<and> parseDelimitedListFrom 2 TypeParameters (parseType 1) [EntityTypeNode ''a'']
         \<lparr>token = Identifier, scanner = \<lparr>remaining = ''>'', tokenValue = ''b''\<rparr>\<rparr>
       = Some (Inr ([EntityTypeNode ''a'', EntityTypeNode ''b''],
           \<lparr>token = GreaterThanToken, scanner = \<lparr>remaining = [], tokenValue = []\<rparr>\<rparr>))"
proof -
  let ?st = "\<lparr>token = Identifier, scanner = \<lparr>remaining = '' b>'', tokenValue = ''a''\<rparr>\<rparr>"
  let ?st1 = "\<lparr>token = Identifier, scanner = \<lparr>remaining = ''>'', tokenValue = ''b''\<rparr>\<rparr>"
  have t: "\<not> isListTerminator TypeParameters ?st"
    by (simp add: isListTerminator_def)
  have p: "parseType 1 ?st = Some (Inr (EntityTypeNode ''a'', ?st1))"
    by code_simp
  have c: "token ?st1 \<noteq> CommaToken" by simp
  from separator_optional [where ?'a = TypeNode] t p
  have "parseDelimitedListFrom (Suc 2) TypeParameters (parseType 1) [] ?st
      = (if token ?st1 = CommaToken then
           andThen (nextToken ?st1) (\<lambda>_ st2.
             parseDelimitedListFrom 2 TypeParameters (parseType 1) ([] @ [EntityTypeNode ''a'']) st2)
         else parseDelimitedListFrom 2 TypeParameters (parseType 1) ([] @ [EntityTypeNode ''a'']) ?st1)"
    by blast
  with c have e: "parseDelimitedListFrom (Suc 2) TypeParameters (parseType 1) [] ?st
      = parseDelimitedListFrom 2 TypeParameters (parseType 1) [EntityTypeNode ''a''] ?st1"
    by simp
  have r: "parseDelimitedListFrom 2 TypeParameters (parseType 1) [EntityTypeNode ''a''] ?st1
       = Some (Inr ([EntityTypeNode ''a'', EntityTypeNode ''b''],
           \<lparr>token = GreaterThanToken, scanner = \<lparr>remaining = [], tokenValue = []\<rparr>\<rparr>))"
    by code_simp
  from t p e r show ?thesis by simp
qed

text \<open>
  C4. In each list context the loop ends exactly when the terminator of the context is
  the current token: when \<open>parseDelimitedList\<close> returns, the terminator is current, and when
  the terminator is current it returns at once. After an element, a comma before the
  terminator is skipped, and the list is the same as without it. So \<^verbatim>\<open>union<a,>\<close> and
  \<^verbatim>\<open>union<a>\<close> return equal trees, and likewise \<^verbatim>\<open>(a,)\<close> and \<^verbatim>\<open>(a)\<close>, \<^verbatim>\<open>{a: b,}\<close> and
  \<^verbatim>\<open>{a: b}\<close>.
\<close>

theorem list_ends_at_terminator:
  "(\<forall>k context (parseElement :: ParserState \<Rightarrow> 'a outcome) st xs st'.
      parseDelimitedList k context parseElement st = Some (Inr (xs, st'))
      \<longrightarrow> isListTerminator context st')
   \<and> (\<forall>k context (parseElement :: ParserState \<Rightarrow> 'a outcome) st.
      isListTerminator context st
      \<longrightarrow> parseDelimitedList (Suc k) context parseElement st = Some (Inr ([], st)))
   \<and> (\<forall>k context (parseElement :: ParserState \<Rightarrow> 'a outcome) result st element st1 st2.
      \<not> isListTerminator context st \<and> parseElement st = Some (Inr (element, st1))
      \<and> token st1 = CommaToken \<and> nextToken st1 = Some (Inr ((), st2))
      \<and> isListTerminator context st2
      \<longrightarrow> parseDelimitedListFrom (Suc (Suc k)) context parseElement result st
          = Some (Inr (result @ [element], st2)))
   \<and> (\<forall>k context (parseElement :: ParserState \<Rightarrow> 'a outcome) result st element st1.
      \<not> isListTerminator context st \<and> parseElement st = Some (Inr (element, st1))
      \<and> isListTerminator context st1
      \<longrightarrow> parseDelimitedListFrom (Suc (Suc k)) context parseElement result st
          = Some (Inr (result @ [element], st1)))
   \<and> parse ''union<a,>'' = Some (Inr (UnionTypeNode [EntityTypeNode ''a'']))
   \<and> parse ''union<a>'' = Some (Inr (UnionTypeNode [EntityTypeNode ''a'']))
   \<and> parse ''(a,)'' = Some (Inr (FunctionTypeNode [FunctionParameterTypeNode (EntityTypeNode ''a'') None None] None))
   \<and> parse ''(a)'' = Some (Inr (FunctionTypeNode [FunctionParameterTypeNode (EntityTypeNode ''a'') None None] None))
   \<and> parse ''{a: b,}'' = Some (Inr (ObjectTypeNode [ObjectMemberTypeNode ''a'' (EntityTypeNode ''b'')]))
   \<and> parse ''{a: b}'' = Some (Inr (ObjectTypeNode [ObjectMemberTypeNode ''a'' (EntityTypeNode ''b'')]))"
proof -
  have ends: "isListTerminator ctx st'"
    if "parseDelimitedList k ctx parseElement st = Some (Inr (xs, st'))"
    for k ctx and parseElement :: "ParserState \<Rightarrow> 'a outcome" and st xs st'
  proof -
    have "returns (parseDelimitedListFrom k ctx parseElement [] st)
           (\<lambda>xs st'. list_all (\<lambda>_. True) xs \<and> True \<and> isListTerminator ctx st')"
      by (rule parseDelimitedListFrom_returns) simp_all
    with that show ?thesis
      by (auto simp: parseDelimitedList_def dest: returnsD)
  qed
  have empty: "parseDelimitedList (Suc k) ctx parseElement st = Some (Inr ([], st))"
    if "isListTerminator ctx st"
    for k ctx and parseElement :: "ParserState \<Rightarrow> 'a outcome" and st
    using that by (simp add: parseDelimitedList_def ok_def)
  have comma: "parseDelimitedListFrom (Suc (Suc k)) ctx parseElement result st
          = Some (Inr (result @ [element], st2))"
    if "\<not> isListTerminator ctx st" "parseElement st = Some (Inr (element, st1))"
      "token st1 = CommaToken" "nextToken st1 = Some (Inr ((), st2))" "isListTerminator ctx st2"
    for k ctx and parseElement :: "ParserState \<Rightarrow> 'a outcome" and result st element st1 st2
    using that by (simp add: skipOptional_def ok_def)
  have nocomma: "parseDelimitedListFrom (Suc (Suc k)) ctx parseElement result st
          = Some (Inr (result @ [element], st1))"
    if "\<not> isListTerminator ctx st" "parseElement st = Some (Inr (element, st1))"
      "isListTerminator ctx st1"
    for k ctx and parseElement :: "ParserState \<Rightarrow> 'a outcome" and result st element st1
  proof -
    from that(3) have "token st1 \<noteq> CommaToken"
      by (auto simp: isListTerminator_def split: ParsingContext.splits)
    with that show ?thesis by (simp add: skipOptional_def ok_def)
  qed
  have e1: "parse ''union<a,>'' = Some (Inr (UnionTypeNode [EntityTypeNode ''a'']))" by code_simp
  have e2: "parse ''union<a>'' = Some (Inr (UnionTypeNode [EntityTypeNode ''a'']))" by code_simp
  have e3: "parse ''(a,)'' = Some (Inr (FunctionTypeNode [FunctionParameterTypeNode (EntityTypeNode ''a'') None None] None))" by code_simp
  have e4: "parse ''(a)'' = Some (Inr (FunctionTypeNode [FunctionParameterTypeNode (EntityTypeNode ''a'') None None] None))" by code_simp
  have e5: "parse ''{a: b,}'' = Some (Inr (ObjectTypeNode [ObjectMemberTypeNode ''a'' (EntityTypeNode ''b'')]))" by code_simp
  have e6: "parse ''{a: b}'' = Some (Inr (ObjectTypeNode [ObjectMemberTypeNode ''a'' (EntityTypeNode ''b'')]))" by code_simp
  show ?thesis
    apply (intro conjI allI impI)
    subgoal by (rule ends)
    subgoal by (rule empty)
    subgoal by (rule comma) blast+
    subgoal by (rule nocomma) blast+
    subgoal by (rule e1)
    subgoal by (rule e2)
    subgoal by (rule e3)
    subgoal by (rule e4)
    subgoal by (rule e5)
    subgoal by (rule e6)
    done
qed

theorem list_ends_at_terminator_witness:
  "parseDelimitedList 2 TypeParameters (parseType 1)
       \<lparr>token = Identifier, scanner = \<lparr>remaining = '',>'', tokenValue = ''a''\<rparr>\<rparr>
     = Some (Inr ([EntityTypeNode ''a''],
         \<lparr>token = GreaterThanToken, scanner = \<lparr>remaining = [], tokenValue = []\<rparr>\<rparr>))
   \<and> isListTerminator TypeParameters
         \<lparr>token = GreaterThanToken, scanner = \<lparr>remaining = [], tokenValue = []\<rparr>\<rparr>"
proof -
  have p: "parseDelimitedList 2 TypeParameters (parseType 1)
       \<lparr>token = Identifier, scanner = \<lparr>remaining = '',>'', tokenValue = ''a''\<rparr>\<rparr>
     = Some (Inr ([EntityTypeNode ''a''],
         \<lparr>token = GreaterThanToken, scanner = \<lparr>remaining = [], tokenValue = []\<rparr>\<rparr>))"
    by code_simp
  from list_ends_at_terminator [where ?'a = TypeNode, THEN conjunct1, rule_format, OF p] p
  show ?thesis by simp
qed

text \<open>
  C5. The nullable marker applies to exactly the type that follows it: for every text
  \<open>s\<close>, parsing \<^verbatim>\<open>?\<close> followed by \<open>s\<close> raises what parsing \<open>s\<close> raises, and otherwise
  returns one Nullable node around the tree of \<open>s\<close>. At any depth, a type that starts
  with \<^verbatim>\<open>?\<close> is the Nullable node of the one type parsed from the token after it. So
  \<^verbatim>\<open>?union<a>\<close> is the Nullable of a Union, not a Union of a Nullable.
\<close>

theorem nullable_wraps_following_type:
  "parse (CHR ''?'' # s) =
     (case parse s of
        None \<Rightarrow> None
      | Some (Inl e) \<Rightarrow> Some (Inl e)
      | Some (Inr t) \<Rightarrow> Some (Inr (NullableTypeNode t)))
   \<and> (\<forall>n st.
         token st = QuestionToken
         \<longrightarrow> parseType (Suc n) st
             = andThen (nextToken st) (\<lambda>_ st1.
                 andThen (parseType n st1) (\<lambda>type st2. ok (NullableTypeNode type) st2)))
   \<and> parse ''?union<a>'' = Some (Inr (NullableTypeNode (UnionTypeNode [EntityTypeNode ''a''])))
   \<and> parse ''?union<a>'' \<noteq> Some (Inr (UnionTypeNode [NullableTypeNode (EntityTypeNode ''a'')]))"
proof -
  have first: "scan (createScanner (CHR ''?'' # s)) = Inr (QuestionToken, createScanner s)"
    by (simp add: scan_def createScanner_def isWhiteSpace_def punctuation_def)
  have general: "parse (CHR ''?'' # s) =
     (case parse s of
        None \<Rightarrow> None
      | Some (Inl e) \<Rightarrow> Some (Inl e)
      | Some (Inr t) \<Rightarrow> Some (Inr (NullableTypeNode t)))"
  proof (cases "scan (createScanner s)")
    case (Inl e)
    with first show ?thesis
      by (simp add: parse_def parseNullable.simps nextToken_def raise_def)
  next
    case (Inr r)
    obtain kind sc where "r = (kind, sc)" by (cases r)
    with Inr first show ?thesis
      by (simp add: parse_def parseNullable.simps nextToken_def andThen_def ok_def
          split: sum.splits option.splits prod.splits)
  qed
  have nested: "parseType (Suc n) st
             = andThen (nextToken st) (\<lambda>_ st1.
                 andThen (parseType n st1) (\<lambda>type st2. ok (NullableTypeNode type) st2))"
    if "token st = QuestionToken" for n st
    using that by (simp add: parseNullable.simps)
  have union: "parse ''?union<a>''
      = Some (Inr (NullableTypeNode (UnionTypeNode [EntityTypeNode ''a''])))"
    by code_simp
  from general nested union show ?thesis by simp
qed

theorem nullable_wraps_following_type_witness:
  "token \<lparr>token = QuestionToken, scanner = \<lparr>remaining = ''union<a>'', tokenValue = []\<rparr>\<rparr>
     = QuestionToken
   \<and> parseType 3 \<lparr>token = UnionKeyword, scanner = \<lparr>remaining = ''<a>'', tokenValue = ''union''\<rparr>\<rparr>
     = Some (Inr (UnionTypeNode [EntityTypeNode ''a''],
         \<lparr>token = EndOfFileToken, scanner = \<lparr>remaining = [], tokenValue = []\<rparr>\<rparr>))
   \<and> parseType (Suc 3) \<lparr>token = QuestionToken, scanner = \<lparr>remaining = ''union<a>'', tokenValue = []\<rparr>\<rparr>
     = Some (Inr (NullableTypeNode (UnionTypeNode [EntityTypeNode ''a'']),
         \<lparr>token = EndOfFileToken, scanner = \<lparr>remaining = [], tokenValue = []\<rparr>\<rparr>))"
proof -
  let ?st = "\<lparr>token = QuestionToken, scanner = \<lparr>remaining = ''union<a>'', tokenValue = []\<rparr>\<rparr>"
  let ?st1 = "\<lparr>token = UnionKeyword, scanner = \<lparr>remaining = ''<a>'', tokenValue = ''union''\<rparr>\<rparr>"
  have t: "token ?st = QuestionToken" by simp
  have n: "nextToken ?st = Some (Inr ((), ?st1))" by code_simp
  have u: "parseType 3 ?st1 = Some (Inr (UnionTypeNode [EntityTypeNode ''a''],
         \<lparr>token = EndOfFileToken, scanner = \<lparr>remaining = [], tokenValue = []\<rparr>\<rparr>))"
    by code_simp
  from nullable_wraps_following_type [THEN conjunct2, THEN conjunct1, rule_format, OF t, of 3]
  have "parseType (Suc 3) ?st
      = andThen (nextToken ?st) (\<lambda>_ st1.
          andThen (parseType 3 st1) (\<lambda>type st2. ok (NullableTypeNode type) st2))" .
  with n u t show ?thesis by simp
qed

text \<open>
  C6. \<^verbatim>\<open>a.b.c\<close> parses to one Entity node named \<^verbatim>\<open>a.b.c\<close>; and in every tree that
  \<open>parse\<close> returns, the name of every Entity node is one or more identifiers joined by
  dots, and is not empty.
\<close>

theorem entity_names_dotted:
  "parse ''a.b.c'' = Some (Inr (EntityTypeNode ''a.b.c''))
   \<and> (\<forall>txt node name. parse txt = Some (Inr node) \<and> name \<in> set (entityNames node) \<longrightarrow>
         name \<noteq> [] \<and>
         (\<exists>ids. ids \<noteq> [] \<and> list_all isIdentifierName ids \<and> name = joinDots ids))"
proof -
  have abc: "parse ''a.b.c'' = Some (Inr (EntityTypeNode ''a.b.c''))"
    by code_simp
  have "name \<noteq> [] \<and> (\<exists>ids. ids \<noteq> [] \<and> list_all isIdentifierName ids \<and> name = joinDots ids)"
    if "parse annotation = Some (Inr node)" and "name \<in> set (entityNames node)"
    for annotation node name
  proof -
    from parse_names [OF that(1)] that(2) have "dotted name"
      by (simp add: list_all_iff)
    then show ?thesis
      using dotted_nonempty [of name] by (simp add: dotted_def)
  qed
  with abc show ?thesis by blast
qed

theorem entity_names_dotted_witness:
  "parse ''{node: dom.Node, offset: number}''
     = Some (Inr (ObjectTypeNode
         [ObjectMemberTypeNode ''node'' (EntityTypeNode ''dom.Node''),
          ObjectMemberTypeNode ''offset'' (EntityTypeNode ''number'')]))
   \<and> entityNames (ObjectTypeNode
         [ObjectMemberTypeNode ''node'' (EntityTypeNode ''dom.Node''),
          ObjectMemberTypeNode ''offset'' (EntityTypeNode ''number'')]) = [''dom.Node'', ''number'']
   \<and> (\<exists>ids. ids \<noteq> [] \<and> list_all isIdentifierName ids \<and> ''dom.Node'' = joinDots ids)"
proof -
  let ?node = "ObjectTypeNode
         [ObjectMemberTypeNode ''node'' (EntityTypeNode ''dom.Node''),
          ObjectMemberTypeNode ''offset'' (EntityTypeNode ''number'')]"
  have p: "parse ''{node: dom.Node, offset: number}'' = Some (Inr ?node)"
    by code_simp
  have n: "entityNames ?node = [''dom.Node'', ''number'']"
    by simp
  from entity_names_dotted p n show ?thesis
    by (metis list.set_intros(1))
qed

text \<open>
  C7. A parameter that starts with the rest marker \<^verbatim>\<open>...\<close>, when it is parsed, is a
  FunctionParameter node with \<open>rest = true\<close> and a name: the token after the marker is an
  identifier, whose text is the name, the token after it is a colon, and the type is
  parsed after the colon. When the token after the marker is not an identifier, or the
  token after the identifier is not a colon, the parameter raises.
\<close>

theorem rest_parameter:
  "(\<forall>n st p st'.
      token st = DotDotDotToken \<and> parseFunctionParameter n st = Some (Inr (p, st'))
      \<longrightarrow> paramRest p = Some True
        \<and> (\<exists>name. paramName p = Some name \<and> name \<noteq> [])
        \<and> (\<exists>st1 st2 st3.
              nextToken st = Some (Inr ((), st1)) \<and> token st1 = Identifier
            \<and> paramName p = Some (tokenValue (scanner st1))
            \<and> nextToken st1 = Some (Inr ((), st2)) \<and> token st2 = ColonToken
            \<and> nextToken st2 = Some (Inr ((), st3))
            \<and> parseType n st3 = Some (Inr (paramType p, st'))))
   \<and> (\<forall>n st st1.
      token st = DotDotDotToken \<and> nextToken st = Some (Inr ((), st1)) \<and> token st1 \<noteq> Identifier
      \<longrightarrow> parseFunctionParameter n st = Some (Inl InvariantViolation))
   \<and> (\<forall>n st st1 st2.
      token st = DotDotDotToken \<and> nextToken st = Some (Inr ((), st1)) \<and> token st1 = Identifier
      \<and> nextToken st1 = Some (Inr ((), st2)) \<and> token st2 \<noteq> ColonToken
      \<longrightarrow> parseFunctionParameter n st = Some (Inl (ExpectedButFound ColonToken (token st2))))
   \<and> parse ''(...a: b)''
       = Some (Inr (FunctionTypeNode
           [FunctionParameterTypeNode (EntityTypeNode ''b'') (Some ''a'') (Some True)] None))
   \<and> parse ''(...: b)'' = Some (Inl InvariantViolation)
   \<and> parse ''(...a b)'' = Some (Inl (ExpectedButFound ColonToken Identifier))"
proof -
  have good: "paramRest p = Some True
        \<and> (\<exists>name. paramName p = Some name \<and> name \<noteq> [])
        \<and> (\<exists>st1 st2 st3.
              nextToken st = Some (Inr ((), st1)) \<and> token st1 = Identifier
            \<and> paramName p = Some (tokenValue (scanner st1))
            \<and> nextToken st1 = Some (Inr ((), st2)) \<and> token st2 = ColonToken
            \<and> nextToken st2 = Some (Inr ((), st3))
            \<and> parseType n st3 = Some (Inr (paramType p, st')))"
    if dots: "token st = DotDotDotToken"
      and p: "parseFunctionParameter n st = Some (Inr (p, st'))"
    for n st p st'
  proof -
    from p obtain name rest st0 type
      where prefix: "parseFunctionParameterName st = Some (Inr ((name, rest), st0))"
        and type: "parseType n st0 = Some (Inr (type, st'))"
        and node: "p = FunctionParameterTypeNode type
               (if truthy name then name else None)
               (if rest = Some True then rest else None)"
      unfolding parseFunctionParameter.simps by (auto simp: andThen_Inr)
    from prefix dots obtain st1 st2 ident
      where st1: "nextToken st = Some (Inr ((), st1))"
        and ident: "parseIdentifier st1 = Some (Inr (ident, st2))"
        and colon: "skipExpected ColonToken st2 = Some (Inr ((), st0))"
        and name: "name = Some ident" and rest: "rest = Some True"
      unfolding parseFunctionParameterName_def by (auto simp: andThen_Inr)
    from ident have id1: "token st1 = Identifier" "ident = tokenValue (scanner st1)"
      "nextToken st1 = Some (Inr ((), st2))"
      by (simp_all add: parseIdentifier_Inr)
    from nextToken_Identifier_nonempty [OF st1 id1(1)] id1(2) have "ident \<noteq> []" by simp
    with node name rest have "paramRest p = Some True" "paramName p = Some ident" "paramType p = type"
      by (simp_all add: truthy_def)
    with \<open>ident \<noteq> []\<close> st1 id1 colon type show ?thesis
      by (auto simp: skipExpected_Inr)
  qed
  have noident: "parseFunctionParameter n st = Some (Inl InvariantViolation)"
    if "token st = DotDotDotToken" "nextToken st = Some (Inr ((), st1))" "token st1 \<noteq> Identifier"
    for n st st1
    using that
    by (simp add: parseFunctionParameter.simps parseFunctionParameterName_def parseIdentifier_def
        invariant_def raise_def)
  have nocolon: "parseFunctionParameter n st = Some (Inl (ExpectedButFound ColonToken (token st2)))"
    if "token st = DotDotDotToken" "nextToken st = Some (Inr ((), st1))" "token st1 = Identifier"
      "nextToken st1 = Some (Inr ((), st2))" "token st2 \<noteq> ColonToken"
    for n st st1 st2
    using that
    by (simp add: parseFunctionParameter.simps parseFunctionParameterName_def parseIdentifier_def
        invariant_def skipExpected_def Let_def raise_def)
  have e1: "parse ''(...a: b)''
       = Some (Inr (FunctionTypeNode
           [FunctionParameterTypeNode (EntityTypeNode ''b'') (Some ''a'') (Some True)] None))"
    by code_simp
  have e2: "parse ''(...: b)'' = Some (Inl InvariantViolation)" by code_simp
  have e3: "parse ''(...a b)'' = Some (Inl (ExpectedButFound ColonToken Identifier))" by code_simp
  show ?thesis
    apply (intro conjI allI impI)
    subgoal for n st p st' using good [of st n p st'] by blast
    subgoal for n st p st' using good [of st n p st'] by blast
    subgoal for n st p st' using good [of st n p st'] by blast
    subgoal by (rule noident) blast+
    subgoal by (rule nocolon) blast+
    subgoal by (rule e1)
    subgoal by (rule e2)
    subgoal by (rule e3)
    done
qed

theorem rest_parameter_witness:
  "token \<lparr>token = DotDotDotToken, scanner = \<lparr>remaining = ''a: b)'', tokenValue = []\<rparr>\<rparr> = DotDotDotToken
   \<and> parseFunctionParameter 1 \<lparr>token = DotDotDotToken, scanner = \<lparr>remaining = ''a: b)'', tokenValue = []\<rparr>\<rparr>
       = Some (Inr (FunctionParameterTypeNode (EntityTypeNode ''b'') (Some ''a'') (Some True),
           \<lparr>token = CloseParenToken, scanner = \<lparr>remaining = [], tokenValue = []\<rparr>\<rparr>))
   \<and> paramRest (FunctionParameterTypeNode (EntityTypeNode ''b'') (Some ''a'') (Some True)) = Some True
   \<and> (\<exists>name. paramName (FunctionParameterTypeNode (EntityTypeNode ''b'') (Some ''a'') (Some True))
         = Some name \<and> name \<noteq> [])"
proof -
  let ?st = "\<lparr>token = DotDotDotToken, scanner = \<lparr>remaining = ''a: b)'', tokenValue = []\<rparr>\<rparr>"
  have t: "token ?st = DotDotDotToken" by simp
  have p: "parseFunctionParameter 1 ?st
       = Some (Inr (FunctionParameterTypeNode (EntityTypeNode ''b'') (Some ''a'') (Some True),
           \<lparr>token = CloseParenToken, scanner = \<lparr>remaining = [], tokenValue = []\<rparr>\<rparr>))"
    by code_simp
  from rest_parameter t p
  have "paramRest (FunctionParameterTypeNode (EntityTypeNode ''b'') (Some ''a'') (Some True)) = Some True
   \<and> (\<exists>name. paramName (FunctionParameterTypeNode (EntityTypeNode ''b'') (Some ''a'') (Some True))
         = Some name \<and> name \<noteq> [])"
    by blast
  with t p show ?thesis by blast
qed




text \<open>
  C9. The empty collections: \<^verbatim>\<open>()\<close> is a Function with no parameters and no return type,
  \<^verbatim>\<open>{}\<close> is an Object with no members, and the empty string literal (two double quotes)
  is a StringLiteral whose value is the empty string.
\<close>

theorem empty_collections:
  "parse ''()'' = Some (Inr (FunctionTypeNode [] None))
   \<and> parse ''{}'' = Some (Inr (ObjectTypeNode []))
   \<and> parse [CHR 0x22, CHR 0x22] = Some (Inr (StringLiteralTypeNode []))"
  by (intro conjI; code_simp)



end
